theory Spec2Isabelle
  imports Complex_Main
begin

section \<open>Lattice Boltzmann (D2Q9) solver and streamline integration\<close>

text \<open>
  The solver class \<^verbatim>\<open>LBMSolver\<close> and the streamline loop of the canvas component are
  embedded as pure functions over an explicit solver state.

  Numbers: a JavaScript \<^verbatim>\<open>number\<close> that holds a physical quantity (populations, density,
  velocity, viscosity, positions) is a \<^typ>\<open>real\<close>: the arithmetic is the exact
  arithmetic the code writes down, without the rounding of doubles, without the rounding
  of a \<^verbatim>\<open>Float32Array\<close> store and without NaN or Infinity. Grid dimensions, cell
  coordinates and array indices are integers (\<^typ>\<open>int\<close>), converted to \<^typ>\<open>nat\<close>
  where an array is indexed.

  Arrays: a \<^verbatim>\<open>Float32Array\<close> is a \<^typ>\<open>real list\<close>, the array of nine typed arrays a
  list of lists, the obstacle mask a \<^typ>\<open>bool list\<close>. A store \<^verbatim>\<open>a[i] = v\<close> is
  \<open>a[i := v]\<close>; out of range both the typed array and the list ignore the store. A
  read \<^verbatim>\<open>a[i]\<close> is \<open>a ! i\<close>; the theorems about a step assume the shape \<open>wf\<close> that
  every constructed solver has and every operation keeps, and under it each read of the
  two passes is inside its array (the index \<open>y * w + x\<close> of a cell of the grid is below
  \<open>w * h\<close>, the source index is used only after the bounds test). The divisions of the
  step are guarded in the source (\<open>rho > 0\<close>, \<open>speed > maxU\<close>), so none divides by zero.

  What this embedding states: which value each branch of the code computes or copies,
  which cells and fields an operation writes, and equalities that hold of the numbers
  themselves (copies, stores of 0 and 1, the rest state). What it does not state: the
  value of a number after rounding. A bound on the speed held in \<open>ux\<close> and \<open>uy\<close> after
  the clamp is such a statement: the clamp of the source works in doubles and the result
  is rounded once more when it is stored, so the stored speed is 0.35 up to rounding
  and not a value these definitions determine.
\<close>

subsection \<open>D2Q9 constants\<close>

text \<open>
  The velocity tables \<^verbatim>\<open>EX\<close> and \<^verbatim>\<open>EY\<close> of the source are \<open>EX_vec\<close> and
  \<open>EY_vec\<close> here, since \<^verbatim>\<open>EX\<close> is reserved input syntax of HOL.
\<close>

definition N_DISCRETE_VELOCITIES :: nat where
  "N_DISCRETE_VELOCITIES = 9"

definition EX_vec :: "int list" where
  "EX_vec = [0, 1, 0, -1, 0, 1, -1, -1, 1]"

definition EY_vec :: "int list" where
  "EY_vec = [0, 0, 1, 0, -1, 1, 1, -1, -1]"

definition W :: "real list" where
  "W = [4 / 9, 1 / 9, 1 / 9, 1 / 9, 1 / 9, 1 / 36, 1 / 36, 1 / 36, 1 / 36]"

definition OPPOSITE :: "nat list" where
  "OPPOSITE = [0, 3, 4, 1, 2, 7, 8, 5, 6]"

subsection \<open>Solver state\<close>

record solver =
  width :: int
  height :: int
  viscosity :: real
  omega :: real
  rho :: "real list"
  ux :: "real list"
  uy :: "real list"
  f :: "real list list"
  fNew :: "real list list"
  barrier :: "bool list"

datatype error = RangeError

text \<open>
  The constructor. It has no check of its arguments; it fails where an allocation
  throws. \<^verbatim>\<open>new Float32Array(size)\<close> is the first statement that can fail and throws a
  RangeError for a negative length. \<^verbatim>\<open>new Array(size)\<close> throws a RangeError for a length
  above \<open>2\<^sup>3\<^sup>2 - 1\<close>, the largest array length of the language, so a product above
  that bound fails there at the latest. Between the two bounds the arrays are taken to
  be allocated: an engine that runs out of memory on a large grid also throws a
  RangeError, but where it does so is a property of the machine, not of the program,
  and no theorem below asserts that a non-empty grid is allocated. The populations of
  \<open>f\<close> are filled with the weight of their direction, those of \<open>fNew\<close> stay at the
  zero a fresh typed array holds.
\<close>

definition LBMSolver_constructor :: "int \<Rightarrow> int \<Rightarrow> real \<Rightarrow> error + solver" where
  "LBMSolver_constructor w h v =
     (let size = w * h in
      if size < 0 \<or> size > 2 ^ 32 - 1 then Inl RangeError
      else Inr \<lparr> width = w, height = h, viscosity = v,
                 omega = 1 / (3 * v + 0.5),
                 rho = replicate (nat size) 1,
                 ux = replicate (nat size) 0,
                 uy = replicate (nat size) 0,
                 f = map (\<lambda>i. replicate (nat size) (W ! i)) [0..<N_DISCRETE_VELOCITIES],
                 fNew = map (\<lambda>i. replicate (nat size) 0) [0..<N_DISCRETE_VELOCITIES],
                 barrier = replicate (nat size) False \<rparr>)"

definition setObstacles :: "bool list \<Rightarrow> solver \<Rightarrow> solver" where
  "setObstacles barriers s =
     (if int (length barriers) \<noteq> width s * height s then s
      else s\<lparr>barrier := barriers\<rparr>)"

definition setViscosity :: "real \<Rightarrow> solver \<Rightarrow> solver" where
  "setViscosity v s = s\<lparr>viscosity := v, omega := 1 / (3 * v + 0.5)\<rparr>"

definition computeEquilibrium :: "nat \<Rightarrow> real \<Rightarrow> real \<Rightarrow> real \<Rightarrow> real" where
  "computeEquilibrium i rho0 ux0 uy0 =
     (let eu = real_of_int (EX_vec ! i) * ux0 + real_of_int (EY_vec ! i) * uy0;
          uv = ux0 * ux0 + uy0 * uy0
      in W ! i * rho0 * (1 + 3 * eu + 4.5 * eu * eu - 1.5 * uv))"

subsection \<open>One time step\<close>

text \<open>
  \<open>mask_at b i\<close> is the truth value of \<^verbatim>\<open>barrier[i]\<close>: an index past the end of the
  array reads \<^verbatim>\<open>undefined\<close>, which is falsy.
\<close>

definition mask_at :: "bool list \<Rightarrow> nat \<Rightarrow> bool" where
  "mask_at b i = (i < length b \<and> b ! i)"

text \<open>The store \<^verbatim>\<open>this.fNew[i][idx] = v\<close>.\<close>

definition set_fNew :: "nat \<Rightarrow> nat \<Rightarrow> real \<Rightarrow> solver \<Rightarrow> solver" where
  "set_fNew i idx v s = s\<lparr>fNew := (fNew s)[i := (fNew s ! i)[idx := v]]\<rparr>"

text \<open>
  The value pulled into direction \<open>i\<close> of the cell \<open>(x, y)\<close>: the body of the direction
  loop of the streaming pass, with its branches in the order of the source.
\<close>

definition pull :: "real \<Rightarrow> int \<Rightarrow> int \<Rightarrow> solver \<Rightarrow> int \<Rightarrow> int \<Rightarrow> nat \<Rightarrow> real" where
  "pull inletSpeed w h s x y i =
     (let idx = nat (y * w + x);
          srcX = x - EX_vec ! i;
          srcY = y - EY_vec ! i
      in if srcX \<ge> 0 \<and> srcX < w \<and> srcY \<ge> 0 \<and> srcY < h then
           (let srcIdx = nat (srcY * w + srcX)
            in if mask_at (barrier s) srcIdx
               then (let opp = OPPOSITE ! i in f s ! opp ! idx)
               else f s ! i ! srcIdx)
         else if srcX < 0 then computeEquilibrium i 1.0 inletSpeed 0
         else if srcX \<ge> w then (let neighborIdx = nat (y * w + (w - 1)) in f s ! i ! neighborIdx)
         else computeEquilibrium i 1.0 inletSpeed 0)"

definition stream_cell :: "real \<Rightarrow> int \<Rightarrow> int \<Rightarrow> solver \<Rightarrow> int \<Rightarrow> int \<Rightarrow> solver" where
  "stream_cell inletSpeed w h s y x =
     (let idx = nat (y * w + x)
      in if mask_at (barrier s) idx
         then s\<lparr>ux := (ux s)[idx := 0], uy := (uy s)[idx := 0], rho := (rho s)[idx := 1]\<rparr>
         else foldl (\<lambda>s i. set_fNew i idx (pull inletSpeed w h s x y i) s) s
                [0..<N_DISCRETE_VELOCITIES])"

text \<open>
  The two nested loops \<^verbatim>\<open>for y in 0 .. h-1\<close>, \<^verbatim>\<open>for x in 0 .. w-1\<close> that both passes
  run over the cells.
\<close>

definition for_cells :: "int \<Rightarrow> int \<Rightarrow> (solver \<Rightarrow> int \<Rightarrow> int \<Rightarrow> solver) \<Rightarrow> solver \<Rightarrow> solver" where
  "for_cells w h body s = foldl (\<lambda>s y. foldl (\<lambda>s x. body s y x) s [0..w - 1]) s [0..h - 1]"

definition streaming :: "real \<Rightarrow> int \<Rightarrow> int \<Rightarrow> solver \<Rightarrow> solver" where
  "streaming inletSpeed w h s = for_cells w h (stream_cell inletSpeed w h) s"

text \<open>
  The collision pass at one cell: the moments of the nine populations
  (\<open>moments\<close>), the division by a positive density (\<open>normalize_velocity\<close>), the clamp of
  the speed at \<open>maxU\<close> (\<open>clamp_velocity\<close>), the three stores, and the BGK relaxation
  whose right-hand side is \<open>bgk\<close>. \<open>macroscopic\<close> is the triple that is stored.
\<close>

definition moments :: "solver \<Rightarrow> nat \<Rightarrow> real \<times> real \<times> real" where
  "moments s idx =
     foldl (\<lambda>(rho0, ux0, uy0) i.
              let fVal = fNew s ! i ! idx
              in (rho0 + fVal,
                  ux0 + fVal * real_of_int (EX_vec ! i),
                  uy0 + fVal * real_of_int (EY_vec ! i)))
       (0, 0, 0) [0..<N_DISCRETE_VELOCITIES]"

definition normalize_velocity :: "real \<times> real \<times> real \<Rightarrow> real \<times> real" where
  "normalize_velocity m =
     (case m of (rho0, ux0, uy0) \<Rightarrow> if rho0 > 0 then (ux0 / rho0, uy0 / rho0) else (ux0, uy0))"

definition maxU :: real where
  "maxU = 0.35"

definition clamp_velocity :: "real \<times> real \<Rightarrow> real \<times> real" where
  "clamp_velocity u =
     (case u of (ux0, uy0) \<Rightarrow>
        let speed = sqrt (ux0 * ux0 + uy0 * uy0)
        in if speed > maxU
           then (let scale = maxU / speed in (ux0 * scale, uy0 * scale))
           else (ux0, uy0))"

definition macroscopic :: "solver \<Rightarrow> nat \<Rightarrow> real \<times> real \<times> real" where
  "macroscopic s idx =
     (case moments s idx of (rho0, ux0, uy0) \<Rightarrow>
      case clamp_velocity (normalize_velocity (rho0, ux0, uy0)) of (ux1, uy1) \<Rightarrow>
        (rho0, ux1, uy1))"

definition bgk :: "nat \<Rightarrow> real \<Rightarrow> real \<Rightarrow> real \<Rightarrow> solver \<Rightarrow> nat \<Rightarrow> real" where
  "bgk idx rho0 ux0 uy0 s i =
     (let feq = computeEquilibrium i rho0 ux0 uy0
      in (1 - omega s) * (fNew s ! i ! idx) + omega s * feq)"

definition collide_cell :: "int \<Rightarrow> int \<Rightarrow> solver \<Rightarrow> int \<Rightarrow> int \<Rightarrow> solver" where
  "collide_cell w h s y x =
     (let idx = nat (y * w + x)
      in if mask_at (barrier s) idx then s
         else
           (case macroscopic s idx of (rho0, ux0, uy0) \<Rightarrow>
              foldl (\<lambda>s i. set_fNew i idx (bgk idx rho0 ux0 uy0 s i) s)
                (s\<lparr>rho := (rho s)[idx := rho0], ux := (ux s)[idx := ux0],
                    uy := (uy s)[idx := uy0]\<rparr>)
                [0..<N_DISCRETE_VELOCITIES]))"

definition collision :: "int \<Rightarrow> int \<Rightarrow> solver \<Rightarrow> solver" where
  "collision w h s = for_cells w h (collide_cell w h) s"

text \<open>The whole step: streaming, collision, then the exchange of the two buffers.\<close>

definition step :: "real \<Rightarrow> solver \<Rightarrow> solver" where
  "step inletSpeed s =
     (let w = width s; h = height s;
          s1 = streaming inletSpeed w h s;
          s2 = collision w h s1
      in s2\<lparr>f := fNew s2, fNew := f s2\<rparr>)"

text \<open>
  The shape a solver has from its construction on: every array has
  \<open>width * height\<close> entries and both buffers hold nine arrays.
\<close>

definition wf :: "solver \<Rightarrow> bool" where
  "wf s =
     (let n = nat (width s * height s)
      in length (rho s) = n \<and> length (ux s) = n \<and> length (uy s) = n \<and>
         length (barrier s) = n \<and>
         length (f s) = N_DISCRETE_VELOCITIES \<and> length (fNew s) = N_DISCRETE_VELOCITIES \<and>
         list_all (\<lambda>a. length a = n) (f s) \<and> list_all (\<lambda>a. length a = n) (fNew s))"


subsection \<open>Streamline integration\<close>





subsection \<open>Predicates used to describe the passes\<close>

text \<open>
  \<open>same_params s s'\<close>: the parameters, the mask and the current buffer of \<open>s\<close> are
  those of \<open>s'\<close>. \<open>same_shape s s'\<close>: the arrays written by a pass have kept their
  lengths. \<open>streamed_cell\<close>: what the streaming pass leaves at the cell \<open>(x, y)\<close>.
  \<open>collided_cell\<close>: what the collision pass, started in \<open>s\<close>, leaves at the cell;
  \<open>untouched_cell\<close>: the cell holds what it held in \<open>s\<close>.
\<close>

definition same_params :: "solver \<Rightarrow> solver \<Rightarrow> bool" where
  "same_params s s' =
     (width s' = width s \<and> height s' = height s \<and> viscosity s' = viscosity s \<and>
      omega s' = omega s \<and> f s' = f s \<and> barrier s' = barrier s)"

definition same_shape :: "solver \<Rightarrow> solver \<Rightarrow> bool" where
  "same_shape s s' =
     (length (rho s') = length (rho s) \<and> length (ux s') = length (ux s) \<and>
      length (uy s') = length (uy s) \<and> length (fNew s') = length (fNew s) \<and>
      (\<forall>j. length (fNew s' ! j) = length (fNew s ! j)))"

definition streamed_cell :: "real \<Rightarrow> int \<Rightarrow> int \<Rightarrow> solver \<Rightarrow> solver \<Rightarrow> int \<Rightarrow> int \<Rightarrow> bool" where
  "streamed_cell u w h s s' x y =
     (let idx = nat (y * w + x)
      in if mask_at (barrier s) idx
         then ux s' ! idx = 0 \<and> uy s' ! idx = 0 \<and> rho s' ! idx = 1
         else (\<forall>i<N_DISCRETE_VELOCITIES. fNew s' ! i ! idx = pull u w h s x y i))"

definition collided_cell :: "int \<Rightarrow> int \<Rightarrow> solver \<Rightarrow> solver \<Rightarrow> int \<Rightarrow> int \<Rightarrow> bool" where
  "collided_cell w h s s' x y =
     (let idx = nat (y * w + x)
      in if mask_at (barrier s) idx
         then rho s' ! idx = rho s ! idx \<and> ux s' ! idx = ux s ! idx \<and> uy s' ! idx = uy s ! idx
         else (case macroscopic s idx of (rho0, ux0, uy0) \<Rightarrow>
                 rho s' ! idx = rho0 \<and> ux s' ! idx = ux0 \<and> uy s' ! idx = uy0 \<and>
                 (\<forall>i<N_DISCRETE_VELOCITIES. fNew s' ! i ! idx = bgk idx rho0 ux0 uy0 s i)))"

definition untouched_cell :: "int \<Rightarrow> solver \<Rightarrow> solver \<Rightarrow> int \<Rightarrow> int \<Rightarrow> bool" where
  "untouched_cell w s s' x y =
     (let idx = nat (y * w + x)
      in rho s' ! idx = rho s ! idx \<and> ux s' ! idx = ux s ! idx \<and> uy s' ! idx = uy s ! idx \<and>
         (\<forall>i. fNew s' ! i ! idx = fNew s ! i ! idx))"

text \<open>
  \<open>at_rest s\<close>: every fluid cell of the grid has density 1, velocity \<open>(0, 0)\<close> and, in
  the current buffer, the lattice weight of each direction.
\<close>

definition at_rest :: "solver \<Rightarrow> bool" where
  "at_rest s =
     (\<forall>x\<in>{0..width s - 1}. \<forall>y\<in>{0..height s - 1}.
        let idx = nat (y * width s + x)
        in \<not> mask_at (barrier s) idx \<longrightarrow>
             rho s ! idx = 1 \<and> ux s ! idx = 0 \<and> uy s ! idx = 0 \<and>
             (\<forall>i<N_DISCRETE_VELOCITIES. f s ! i ! idx = W ! i))"

text \<open>
  A solver with distinguishable populations (\<open>f[i][j] = 10 i + j\<close>) on a 3 x 3 grid whose
  centre cell is solid, used to instantiate the theorems below.
\<close>

definition example_solver :: solver where
  "example_solver =
     \<lparr> width = 3, height = 3, viscosity = 1 / 25, omega = 1 / (3 * (1 / 25) + 0.5),
       rho = replicate 9 1, ux = replicate 9 0, uy = replicate 9 0,
       f = map (\<lambda>i. map (\<lambda>j. real (10 * i + j)) [0..<9]) [0..<9],
       fNew = replicate 9 (replicate 9 0),
       barrier = [False, False, False, False, True, False, False, False, False] \<rparr>"

section \<open>Loop rules\<close>

subsection \<open>Cell indices\<close>

lemma cell_idx_bound:
  assumes "0 \<le> x" "x < w" "0 \<le> y" "y < h"
  shows "nat (y * w + x) < nat (w * h)"
proof -
  have "y + 1 \<le> h" using assms by simp
  then have "(y + 1) * w \<le> h * w" using assms by (intro mult_right_mono) auto
  then have "y * w + x < w * h" using assms by (simp add: algebra_simps)
  moreover have "0 \<le> y * w + x" using assms by simp
  ultimately show ?thesis by simp
qed

lemma cell_idx_inj:
  assumes "0 \<le> x" "x < w" "0 \<le> x'" "x' < w" "0 \<le> y" "0 \<le> y'"
    and eq: "nat (y * w + x) = nat (y' * w + x')"
  shows "x = x' \<and> y = y'"
proof -
  have e: "y * w + x = y' * w + x'" using assms by (simp add: nat_eq_iff)
  have "(y * w + x) div w = y" "(y * w + x) mod w = x" using assms by simp_all
  moreover have "(y' * w + x') div w = y'" "(y' * w + x') mod w = x'" using assms by simp_all
  ultimately show ?thesis using e by simp
qed

subsection \<open>The loops over the cells and over the directions\<close>

lemma foldl_row_rule:
  assumes body: "\<And>D s x. P D s \<Longrightarrow> x \<in> X \<Longrightarrow> (x, y) \<notin> D \<Longrightarrow> P (insert (x, y) D) (body s y x)"
  shows "distinct xs \<Longrightarrow> set xs \<subseteq> X \<Longrightarrow> P D s \<Longrightarrow> (\<forall>x\<in>set xs. (x, y) \<notin> D) \<Longrightarrow>
         P (D \<union> (\<lambda>x. (x, y)) ` set xs) (foldl (\<lambda>s x. body s y x) s xs)"
proof (induction xs arbitrary: D s)
  case Nil
  then show ?case by simp
next
  case (Cons a xs)
  have 1: "P (insert (a, y) D) (body s y a)"
    using Cons.prems by (intro body) auto
  have 2: "\<forall>x\<in>set xs. (x, y) \<notin> insert (a, y) D"
    using Cons.prems by auto
  have "P (insert (a, y) D \<union> (\<lambda>x. (x, y)) ` set xs)
          (foldl (\<lambda>s x. body s y x) (body s y a) xs)"
    using Cons.prems 1 2 by (intro Cons.IH) auto
  then show ?case by simp
qed

lemma foldl_rows_rule:
  assumes row: "\<And>D s y. P D s \<Longrightarrow> y \<in> Y \<Longrightarrow> (\<forall>x\<in>X. (x, y) \<notin> D) \<Longrightarrow> P (D \<union> X \<times> {y}) (rowf s y)"
  shows "distinct ys \<Longrightarrow> set ys \<subseteq> Y \<Longrightarrow> P D s \<Longrightarrow> (\<forall>y\<in>set ys. \<forall>x\<in>X. (x, y) \<notin> D) \<Longrightarrow>
         P (D \<union> X \<times> set ys) (foldl rowf s ys)"
proof (induction ys arbitrary: D s)
  case Nil
  then show ?case by simp
next
  case (Cons a ys)
  have 1: "P (D \<union> X \<times> {a}) (rowf s a)"
    using Cons.prems by (intro row) auto
  have 2: "\<forall>y\<in>set ys. \<forall>x\<in>X. (x, y) \<notin> D \<union> X \<times> {a}"
    using Cons.prems by auto
  have "P (D \<union> X \<times> {a} \<union> X \<times> set ys) (foldl rowf (rowf s a) ys)"
    using Cons.prems 1 2 by (intro Cons.IH) auto
  moreover have "D \<union> X \<times> {a} \<union> X \<times> set ys = D \<union> X \<times> set (a # ys)" by auto
  ultimately show ?case by simp
qed

lemma for_cells_rule:
  assumes init: "P {} s"
    and body: "\<And>D s x y. P D s \<Longrightarrow> 0 \<le> x \<Longrightarrow> x < w \<Longrightarrow> 0 \<le> y \<Longrightarrow> y < h \<Longrightarrow>
                 (x, y) \<notin> D \<Longrightarrow> P (insert (x, y) D) (body s y x)"
  shows "P ({0..w - 1} \<times> {0..h - 1}) (for_cells w h body s)"
proof -
  have row: "P (D \<union> {0..w - 1} \<times> {y}) (foldl (\<lambda>s x. body s y x) s [0..w - 1])"
    if "P D s" "y \<in> {0..h - 1}" "\<forall>x\<in>{0..w - 1}. (x, y) \<notin> D" for D s y
  proof -
    have "P (D \<union> (\<lambda>x. (x, y)) ` set [0..w - 1]) (foldl (\<lambda>s x. body s y x) s [0..w - 1])"
    proof (rule foldl_row_rule [where X = "{0..w - 1}"])
      fix D s x assume "P D s" "x \<in> {0..w - 1}" "(x, y) \<notin> D"
      then show "P (insert (x, y) D) (body s y x)" using that(2) by (intro body) auto
    qed (use that in auto)
    moreover have "(\<lambda>x. (x, y)) ` set [0..w - 1] = {0..w - 1} \<times> {y}" by auto
    ultimately show ?thesis by simp
  qed
  have "P ({} \<union> {0..w - 1} \<times> set [0..h - 1])
          (foldl (\<lambda>s y. foldl (\<lambda>s x. body s y x) s [0..w - 1]) s [0..h - 1])"
    by (rule foldl_rows_rule [where Y = "{0..h - 1}"]) (use init row in auto)
  then show ?thesis by (simp add: for_cells_def)
qed

lemma upt_nine: "[0..<N_DISCRETE_VELOCITIES] = [0, 1, 2, 3, 4, 5, 6, 7, 8]"
  by (simp add: N_DISCRETE_VELOCITIES_def upt_rec)

lemma dir_loop:
  assumes val: "\<And>s1 s2 i. f s2 = f s1 \<Longrightarrow> barrier s2 = barrier s1 \<Longrightarrow> omega s2 = omega s1 \<Longrightarrow>
                   fNew s2 ! i ! idx = fNew s1 ! i ! idx \<Longrightarrow> val s2 i = val s1 i"
  shows "distinct js \<Longrightarrow>
         foldl (\<lambda>s i. set_fNew i idx (val s i) s) s js
           = s\<lparr>fNew := fNew (foldl (\<lambda>s i. set_fNew i idx (val s i) s) s js)\<rparr> \<and>
         length (fNew (foldl (\<lambda>s i. set_fNew i idx (val s i) s) s js)) = length (fNew s) \<and>
         (\<forall>j. fNew (foldl (\<lambda>s i. set_fNew i idx (val s i) s) s js) ! j =
               (if j \<in> set js \<and> j < length (fNew s) then (fNew s ! j)[idx := val s j]
                else fNew s ! j))"
proof (induction js rule: rev_induct)
  case Nil
  then show ?case by simp
next
  case (snoc i js)
  define t where "t = foldl (\<lambda>s i. set_fNew i idx (val s i) s) s js"
  have d: "distinct js" "i \<notin> set js" using snoc.prems by auto
  from snoc.IH [OF d(1)]
  have t1: "t = s\<lparr>fNew := fNew t\<rparr>"
    and t2: "length (fNew t) = length (fNew s)"
    and t3: "\<And>j. fNew t ! j = (if j \<in> set js \<and> j < length (fNew s)
                                   then (fNew s ! j)[idx := val s j] else fNew s ! j)"
    unfolding t_def by auto
  have fr: "f t = f s" "barrier t = barrier s" "omega t = omega s"
    by (subst t1, simp)+
  have ti: "fNew t ! i = fNew s ! i" using t3 [of i] d by simp
  have v: "val t i = val s i" by (rule val) (simp_all add: fr ti)
  have e: "foldl (\<lambda>s i. set_fNew i idx (val s i) s) s (js @ [i]) = set_fNew i idx (val s i) t"
    by (simp add: t_def [symmetric] v)
  have r1: "set_fNew i idx (val s i) t = s\<lparr>fNew := fNew (set_fNew i idx (val s i) t)\<rparr>"
    by (subst (1) t1) (simp add: set_fNew_def)
  have r2: "length (fNew (set_fNew i idx (val s i) t)) = length (fNew s)"
    by (simp add: set_fNew_def t2)
  have r3: "fNew (set_fNew i idx (val s i) t) ! j =
              (if j \<in> set (js @ [i]) \<and> j < length (fNew s) then (fNew s ! j)[idx := val s j]
               else fNew s ! j)" for j
  proof (cases "j = i")
    case True
    show ?thesis
    proof (cases "i < length (fNew s)")
      case True
      then show ?thesis using \<open>j = i\<close> ti t2 by (simp add: set_fNew_def)
    next
      case False
      then have "(fNew t)[i := (fNew t ! i)[idx := val s i]] = fNew t"
        using t2 by (intro list_update_beyond) simp
      then show ?thesis using \<open>j = i\<close> ti False by (simp add: set_fNew_def)
    qed
  next
    case False
    then show ?thesis using t3 [of j] by (simp add: set_fNew_def)
  qed
  show ?case unfolding e using r1 r2 r3 by blast
qed

lemma pull_cong:
  "f s2 = f s1 \<Longrightarrow> barrier s2 = barrier s1 \<Longrightarrow> pull u w h s2 x y i = pull u w h s1 x y i"
  by (simp add: pull_def Let_def)

lemma stream_cell_solid:
  "mask_at (barrier s) (nat (y * w + x)) \<Longrightarrow>
   stream_cell u w h s y x =
     s\<lparr>ux := (ux s)[nat (y * w + x) := 0], uy := (uy s)[nat (y * w + x) := 0],
       rho := (rho s)[nat (y * w + x) := 1]\<rparr>"
  by (simp add: stream_cell_def Let_def)


lemma stream_cell_fluid_loop:
  assumes "\<not> mask_at (barrier s) (nat (y * w + x))"
  shows "stream_cell u w h s y x =
           foldl (\<lambda>s i. set_fNew i (nat (y * w + x)) (pull u w h s x y i) s) s
             [0..<N_DISCRETE_VELOCITIES]"
  using assms by (simp add: stream_cell_def Let_def)

lemma stream_loop:
  "foldl (\<lambda>s i. set_fNew i idx (pull u w h s x y i) s) s [0..<N_DISCRETE_VELOCITIES]
     = s\<lparr>fNew := fNew (foldl (\<lambda>s i. set_fNew i idx (pull u w h s x y i) s) s
                          [0..<N_DISCRETE_VELOCITIES])\<rparr> \<and>
   length (fNew (foldl (\<lambda>s i. set_fNew i idx (pull u w h s x y i) s) s
                   [0..<N_DISCRETE_VELOCITIES])) = length (fNew s) \<and>
   (\<forall>j. fNew (foldl (\<lambda>s i. set_fNew i idx (pull u w h s x y i) s) s
                  [0..<N_DISCRETE_VELOCITIES]) ! j =
         (if j \<in> set [0..<N_DISCRETE_VELOCITIES] \<and> j < length (fNew s)
          then (fNew s ! j)[idx := pull u w h s x y j] else fNew s ! j))"
proof (rule dir_loop [where val = "\<lambda>s i. pull u w h s x y i"])
  show "pull u w h s2 x y i = pull u w h s1 x y i"
    if "f s2 = f s1" "barrier s2 = barrier s1" for s1 s2 i
    using that by (rule pull_cong)
  show "distinct [0..<N_DISCRETE_VELOCITIES]" by simp
qed

lemma stream_cell_fluid_frame:
  assumes "\<not> mask_at (barrier s) (nat (y * w + x))"
  shows "stream_cell u w h s y x = s\<lparr>fNew := fNew (stream_cell u w h s y x)\<rparr>"
  unfolding stream_cell_fluid_loop [OF assms] by (rule stream_loop [THEN conjunct1])

lemma stream_cell_fluid_length:
  assumes "\<not> mask_at (barrier s) (nat (y * w + x))"
  shows "length (fNew (stream_cell u w h s y x)) = length (fNew s)"
  unfolding stream_cell_fluid_loop [OF assms]
  by (rule stream_loop [THEN conjunct2, THEN conjunct1])

lemma stream_cell_fluid_nth:
  assumes "\<not> mask_at (barrier s) (nat (y * w + x))"
  shows "fNew (stream_cell u w h s y x) ! j =
           (if j < N_DISCRETE_VELOCITIES \<and> j < length (fNew s)
            then (fNew s ! j)[nat (y * w + x) := pull u w h s x y j] else fNew s ! j)"
  unfolding stream_cell_fluid_loop [OF assms]
  by (simp add: stream_loop [THEN conjunct2, THEN conjunct2, rule_format])

subsection \<open>The streaming pass\<close>

lemma wf_lengths:
  assumes "wf s"
  shows "length (rho s) = nat (width s * height s)" "length (ux s) = nat (width s * height s)"
    "length (uy s) = nat (width s * height s)" "length (barrier s) = nat (width s * height s)"
    "length (f s) = N_DISCRETE_VELOCITIES" "length (fNew s) = N_DISCRETE_VELOCITIES"
    "i < N_DISCRETE_VELOCITIES \<Longrightarrow> length (f s ! i) = nat (width s * height s)"
    "i < N_DISCRETE_VELOCITIES \<Longrightarrow> length (fNew s ! i) = nat (width s * height s)"
  using assms by (simp_all add: wf_def Let_def list_all_length)

lemma stream_cell_fluid_fields:
  assumes "\<not> mask_at (barrier s) (nat (y * w + x))"
  shows "same_params s (stream_cell u w h s y x)"
    and "ux (stream_cell u w h s y x) = ux s"
    and "uy (stream_cell u w h s y x) = uy s"
    and "rho (stream_cell u w h s y x) = rho s"
  unfolding same_params_def
  by (subst stream_cell_fluid_frame [OF assms], simp)+

lemma stream_cell_step:
  assumes wf: "wf s" and w: "w = width s" and h: "h = height s"
    and D: "D \<subseteq> {0..w - 1} \<times> {0..h - 1}"
    and par: "same_params s t" and sh: "same_shape s t"
    and dn: "\<forall>(x, y)\<in>D. streamed_cell u w h s t x y"
    and x: "0 \<le> x" "x < w" and y: "0 \<le> y" "y < h" and new: "(x, y) \<notin> D"
  shows "same_params s (stream_cell u w h t y x) \<and> same_shape s (stream_cell u w h t y x) \<and>
         (\<forall>(x', y')\<in>insert (x, y) D. streamed_cell u w h s (stream_cell u w h t y x) x' y')"
proof -
  let ?idx = "nat (y * w + x)"
  let ?t' = "stream_cell u w h t y x"
  have bt: "barrier t = barrier s" and ft: "f t = f s" using par by (simp_all add: same_params_def)
  have n: "?idx < nat (width s * height s)" using cell_idx_bound [OF x y] w h by simp
  have other: "nat (y' * w + x') \<noteq> ?idx" if "(x', y') \<in> D" for x' y'
  proof
    assume "nat (y' * w + x') = ?idx"
    moreover have "0 \<le> x'" "x' < w" "0 \<le> y'" using that D by auto
    ultimately have "x' = x \<and> y' = y" using x y by (intro cell_idx_inj [of x' w x y' y]) auto
    then show False using that new by simp
  qed
  show ?thesis
  proof (cases "mask_at (barrier t) ?idx")
    case True
    have e: "?t' = t\<lparr>ux := (ux t)[?idx := 0], uy := (uy t)[?idx := 0], rho := (rho t)[?idx := 1]\<rparr>"
      using True by (rule stream_cell_solid)
    have 1: "same_params s ?t'" using par by (simp add: e same_params_def)
    have 2: "same_shape s ?t'" using sh by (simp add: e same_shape_def)
    have 3: "streamed_cell u w h s ?t' x y"
      using True bt n sh wf_lengths(1-3) [OF wf]
      by (simp add: e streamed_cell_def same_shape_def)
    have 4: "streamed_cell u w h s ?t' x' y'" if "(x', y') \<in> D" for x' y'
      using dn that other [OF that] by (auto simp add: e streamed_cell_def Let_def)
    show ?thesis using 1 2 3 4 by auto
  next
    case False
    note fr = stream_cell_fluid_fields [OF False, of u h]
    note nth = stream_cell_fluid_nth [OF False, of u h]
    note len = stream_cell_fluid_length [OF False, of u h]
    have pl: "pull u w h t x y i = pull u w h s x y i" for i
      using ft bt by (rule pull_cong)
    have 1: "same_params s ?t'" using par fr(1) by (simp add: same_params_def)
    have 2: "same_shape s ?t'" using sh fr(2-4) len nth by (simp add: same_shape_def)
    have 3: "streamed_cell u w h s ?t' x y"
    proof -
      have "fNew ?t' ! i ! ?idx = pull u w h s x y i" if "i < N_DISCRETE_VELOCITIES" for i
      proof -
        have "length (fNew t) = N_DISCRETE_VELOCITIES"
          using sh wf_lengths(6) [OF wf] by (simp add: same_shape_def)
        moreover have "length (fNew t ! i) = nat (width s * height s)"
          using sh wf_lengths(8) [OF wf that] by (simp add: same_shape_def)
        ultimately show ?thesis using that n by (simp add: nth pl)
      qed
      then show ?thesis using False bt by (simp add: streamed_cell_def)
    qed
    have 4: "streamed_cell u w h s ?t' x' y'" if "(x', y') \<in> D" for x' y'
    proof -
      have "fNew ?t' ! i ! nat (y' * w + x') = fNew t ! i ! nat (y' * w + x')" for i
        using other [OF that] by (simp add: nth)
      then show ?thesis using dn that by (auto simp add: streamed_cell_def Let_def fr(2-4))
    qed
    show ?thesis using 1 2 3 4 by auto
  qed
qed

lemma streaming_result:
  assumes wf: "wf s" and w: "w = width s" and h: "h = height s"
  shows "same_params s (streaming u w h s) \<and> same_shape s (streaming u w h s) \<and>
         (\<forall>(x, y)\<in>{0..w - 1} \<times> {0..h - 1}. streamed_cell u w h s (streaming u w h s) x y)"
proof -
  let ?P = "\<lambda>D t. D \<subseteq> {0..w - 1} \<times> {0..h - 1} \<and> same_params s t \<and> same_shape s t \<and>
                   (\<forall>(x, y)\<in>D. streamed_cell u w h s t x y)"
  have "?P ({0..w - 1} \<times> {0..h - 1}) (for_cells w h (stream_cell u w h) s)"
  proof (rule for_cells_rule [where P = ?P])
    show "?P {} s" by (simp add: same_params_def same_shape_def)
  next
    fix D t x y
    assume P: "?P D t" and x: "0 \<le> x" "x < w" and y: "0 \<le> y" "y < h" and new: "(x, y) \<notin> D"
    have "insert (x, y) D \<subseteq> {0..w - 1} \<times> {0..h - 1}" using P x y by auto
    moreover note stream_cell_step [OF wf w h _ _ _ _ x y new, of t u]
    ultimately show "?P (insert (x, y) D) (stream_cell u w h t y x)" using P by blast
  qed
  then show ?thesis by (simp add: streaming_def)
qed

lemma streaming_fluid:
  assumes "wf s" "0 \<le> x" "x < width s" "0 \<le> y" "y < height s"
    and "\<not> mask_at (barrier s) (nat (y * width s + x))" and "i < N_DISCRETE_VELOCITIES"
  shows "fNew (streaming u (width s) (height s) s) ! i ! nat (y * width s + x)
           = pull u (width s) (height s) s x y i"
proof -
  have "(x, y) \<in> {0..width s - 1} \<times> {0..height s - 1}" using assms by simp
  with streaming_result [OF assms(1) refl refl, of u]
  have "streamed_cell u (width s) (height s) s (streaming u (width s) (height s) s) x y"
    by blast
  then show ?thesis using assms(6,7) by (simp add: streamed_cell_def)
qed

lemma wf_example: "wf example_solver"
  by (simp add: wf_def example_solver_def N_DISCRETE_VELOCITIES_def list_all_iff)

lemma opposite_table:
  assumes "i < N_DISCRETE_VELOCITIES"
  shows "EX_vec ! (OPPOSITE ! i) = - EX_vec ! i \<and> EY_vec ! (OPPOSITE ! i) = - EY_vec ! i \<and>
         OPPOSITE ! (OPPOSITE ! i) = i \<and> OPPOSITE ! i < N_DISCRETE_VELOCITIES"
proof -
  have "i \<in> set [0..<N_DISCRETE_VELOCITIES]" using assms by simp
  then have "i \<in> {0, 1, 2, 3, 4, 5, 6, 7, 8}" unfolding upt_nine by simp
  then show ?thesis
    by (auto simp add: EX_vec_def EY_vec_def OPPOSITE_def N_DISCRETE_VELOCITIES_def)
qed

subsection \<open>The collision pass\<close>

lemma moments_cong:
  assumes "\<forall>i<N_DISCRETE_VELOCITIES. fNew t ! i ! idx = fNew s ! i ! idx"
  shows "moments t idx = moments s idx"
proof -
  have "fNew t ! i ! idx = fNew s ! i ! idx" if "i \<in> {0, 1, 2, 3, 4, 5, 6, 7, 8}" for i
    using assms that by (auto simp add: N_DISCRETE_VELOCITIES_def)
  then show ?thesis unfolding moments_def upt_nine by (simp add: Let_def)
qed

lemma macroscopic_cong:
  assumes "\<forall>i<N_DISCRETE_VELOCITIES. fNew t ! i ! idx = fNew s ! i ! idx"
  shows "macroscopic t idx = macroscopic s idx"
  by (simp add: macroscopic_def moments_cong [OF assms])

lemma bgk_cong:
  "f s2 = f s1 \<Longrightarrow> barrier s2 = barrier s1 \<Longrightarrow> omega s2 = omega s1 \<Longrightarrow>
   fNew s2 ! i ! idx = fNew s1 ! i ! idx \<Longrightarrow>
   bgk idx r a b s2 i = bgk idx r a b s1 i"
  by (simp add: bgk_def)

lemma bgk_loop:
  "foldl (\<lambda>s i. set_fNew i idx (bgk idx r a b s i) s) s [0..<N_DISCRETE_VELOCITIES]
     = s\<lparr>fNew := fNew (foldl (\<lambda>s i. set_fNew i idx (bgk idx r a b s i) s) s
                          [0..<N_DISCRETE_VELOCITIES])\<rparr> \<and>
   length (fNew (foldl (\<lambda>s i. set_fNew i idx (bgk idx r a b s i) s) s
                   [0..<N_DISCRETE_VELOCITIES])) = length (fNew s) \<and>
   (\<forall>j. fNew (foldl (\<lambda>s i. set_fNew i idx (bgk idx r a b s i) s) s
                  [0..<N_DISCRETE_VELOCITIES]) ! j =
         (if j \<in> set [0..<N_DISCRETE_VELOCITIES] \<and> j < length (fNew s)
          then (fNew s ! j)[idx := bgk idx r a b s j] else fNew s ! j))"
  by (rule dir_loop [where val = "\<lambda>s i. bgk idx r a b s i"]) (simp_all add: bgk_def)

lemma bgk_macro_update:
  "bgk idx r a b (s\<lparr>rho := r', ux := a', uy := b'\<rparr>) i = bgk idx r a b s i"
  by (simp add: bgk_def)

lemma collide_cell_solid:
  "mask_at (barrier s) (nat (y * w + x)) \<Longrightarrow> collide_cell w h s y x = s"
  by (simp add: collide_cell_def)

lemma collide_cell_fluid_loop:
  assumes "\<not> mask_at (barrier s) (nat (y * w + x))"
    and "macroscopic s (nat (y * w + x)) = (r, a, b)"
  shows "collide_cell w h s y x =
           foldl (\<lambda>s i. set_fNew i (nat (y * w + x)) (bgk (nat (y * w + x)) r a b s i) s)
             (s\<lparr>rho := (rho s)[nat (y * w + x) := r], ux := (ux s)[nat (y * w + x) := a],
                 uy := (uy s)[nat (y * w + x) := b]\<rparr>)
             [0..<N_DISCRETE_VELOCITIES]"
  using assms by (simp add: collide_cell_def Let_def)

lemma collide_cell_fluid_frame:
  assumes "\<not> mask_at (barrier s) (nat (y * w + x))"
    and "macroscopic s (nat (y * w + x)) = (r, a, b)"
  shows "collide_cell w h s y x =
           s\<lparr>rho := (rho s)[nat (y * w + x) := r], ux := (ux s)[nat (y * w + x) := a],
              uy := (uy s)[nat (y * w + x) := b], fNew := fNew (collide_cell w h s y x)\<rparr>"
  unfolding collide_cell_fluid_loop [OF assms]
  by (subst (1) bgk_loop [THEN conjunct1]) simp

lemma collide_cell_fluid_length:
  assumes "\<not> mask_at (barrier s) (nat (y * w + x))"
    and "macroscopic s (nat (y * w + x)) = (r, a, b)"
  shows "length (fNew (collide_cell w h s y x)) = length (fNew s)"
  unfolding collide_cell_fluid_loop [OF assms]
  by (simp add: bgk_loop [THEN conjunct2, THEN conjunct1])

lemma collide_cell_fluid_nth:
  assumes "\<not> mask_at (barrier s) (nat (y * w + x))"
    and "macroscopic s (nat (y * w + x)) = (r, a, b)"
  shows "fNew (collide_cell w h s y x) ! j =
           (if j < N_DISCRETE_VELOCITIES \<and> j < length (fNew s)
            then (fNew s ! j)[nat (y * w + x) := bgk (nat (y * w + x)) r a b s j]
            else fNew s ! j)"
  unfolding collide_cell_fluid_loop [OF assms]
  by (simp add: bgk_loop [THEN conjunct2, THEN conjunct2, rule_format] bgk_macro_update)

lemma collide_cell_fluid_fields:
  assumes "\<not> mask_at (barrier s) (nat (y * w + x))"
    and "macroscopic s (nat (y * w + x)) = (r, a, b)"
  shows "same_params s (collide_cell w h s y x)"
    and "ux (collide_cell w h s y x) = (ux s)[nat (y * w + x) := a]"
    and "uy (collide_cell w h s y x) = (uy s)[nat (y * w + x) := b]"
    and "rho (collide_cell w h s y x) = (rho s)[nat (y * w + x) := r]"
  unfolding same_params_def
  by (subst collide_cell_fluid_frame [OF assms], simp)+

lemma collide_cell_step:
  assumes shape: "length (rho s) = n" "length (ux s) = n" "length (uy s) = n"
      "length (fNew s) = N_DISCRETE_VELOCITIES"
      "\<forall>i<N_DISCRETE_VELOCITIES. length (fNew s ! i) = n"
    and n: "n = nat (w * h)"
    and D: "D \<subseteq> {0..w - 1} \<times> {0..h - 1}"
    and par: "same_params s t" and sh: "same_shape s t"
    and dn: "\<forall>(x, y)\<in>D. collided_cell w h s t x y"
    and un: "\<forall>(x, y)\<in>{0..w - 1} \<times> {0..h - 1} - D. untouched_cell w s t x y"
    and x: "0 \<le> x" "x < w" and y: "0 \<le> y" "y < h" and new: "(x, y) \<notin> D"
  shows "same_params s (collide_cell w h t y x) \<and> same_shape s (collide_cell w h t y x) \<and>
         (\<forall>(x', y')\<in>insert (x, y) D. collided_cell w h s (collide_cell w h t y x) x' y') \<and>
         (\<forall>(x', y')\<in>{0..w - 1} \<times> {0..h - 1} - insert (x, y) D.
             untouched_cell w s (collide_cell w h t y x) x' y')"
proof -
  let ?idx = "nat (y * w + x)"
  let ?t' = "collide_cell w h t y x"
  have bt: "barrier t = barrier s" and ot: "omega t = omega s"
    using par by (simp_all add: same_params_def)
  have idx: "?idx < n" using cell_idx_bound [OF x y] n by simp
  have here: "untouched_cell w s t x y" using un x y new by auto
  have other: "nat (y' * w + x') \<noteq> ?idx"
    if "(x', y') \<in> {0..w - 1} \<times> {0..h - 1}" "(x', y') \<noteq> (x, y)" for x' y'
  proof
    assume "nat (y' * w + x') = ?idx"
    moreover have "0 \<le> x'" "x' < w" "0 \<le> y'" using that by auto
    ultimately have "x' = x \<and> y' = y" using x y by (intro cell_idx_inj [of x' w x y' y]) auto
    then show False using that by simp
  qed
  show ?thesis
  proof (cases "mask_at (barrier t) ?idx")
    case True
    have e: "?t' = t" using True by (rule collide_cell_solid)
    have "collided_cell w h s t x y"
      using True bt here by (simp add: collided_cell_def untouched_cell_def Let_def)
    then show ?thesis using par sh dn un by (auto simp add: e)
  next
    case False
    obtain r a b where m: "macroscopic t ?idx = (r, a, b)" by (cases "macroscopic t ?idx") auto
    have same: "\<forall>i<N_DISCRETE_VELOCITIES. fNew t ! i ! ?idx = fNew s ! i ! ?idx"
      using here by (simp add: untouched_cell_def Let_def)
    have ms: "macroscopic s ?idx = (r, a, b)" using macroscopic_cong [OF same] m by simp
    note fr = collide_cell_fluid_fields [OF False m, of h]
    note nth = collide_cell_fluid_nth [OF False m, of h]
    note len = collide_cell_fluid_length [OF False m, of h]
    have bg: "bgk ?idx r a b t i = bgk ?idx r a b s i" if "i < N_DISCRETE_VELOCITIES" for i
      using same that ot by (simp add: bgk_def)
    have lt: "length (rho t) = n" "length (ux t) = n" "length (uy t) = n"
      "length (fNew t) = N_DISCRETE_VELOCITIES"
      using sh shape by (simp_all add: same_shape_def)
    have lti: "length (fNew t ! i) = n" if "i < N_DISCRETE_VELOCITIES" for i
      using sh shape that by (simp add: same_shape_def)
    have 1: "same_params s ?t'" using par fr(1) by (simp add: same_params_def)
    have 2: "same_shape s ?t'" using sh fr(2-4) len nth by (simp add: same_shape_def)
    have 3: "collided_cell w h s ?t' x y"
    proof -
      have "fNew ?t' ! i ! ?idx = bgk ?idx r a b s i" if "i < N_DISCRETE_VELOCITIES" for i
        using that idx lt lti [OF that] by (simp add: nth bg)
      then show ?thesis
        using False bt ms idx lt by (simp add: collided_cell_def fr(2-4))
    qed
    have keep: "rho ?t' ! j = rho t ! j \<and> ux ?t' ! j = ux t ! j \<and> uy ?t' ! j = uy t ! j \<and>
                (\<forall>i. fNew ?t' ! i ! j = fNew t ! i ! j)" if "j \<noteq> ?idx" for j
      using that by (simp add: fr(2-4) nth)
    have 4: "collided_cell w h s ?t' x' y'" if "(x', y') \<in> D" for x' y'
    proof -
      have "(x', y') \<in> {0..w - 1} \<times> {0..h - 1}" "(x', y') \<noteq> (x, y)" using that D new by auto
      moreover have "collided_cell w h s t x' y'" using dn that by auto
      ultimately show ?thesis
        using keep [of "nat (y' * w + x')"] other [of x' y']
        by (cases "mask_at (barrier s) (nat (y' * w + x'))")
           (auto simp add: collided_cell_def Let_def split: prod.splits)
    qed
    have 5: "untouched_cell w s ?t' x' y'"
      if "(x', y') \<in> {0..w - 1} \<times> {0..h - 1} - insert (x, y) D" for x' y'
    proof -
      have "(x', y') \<in> {0..w - 1} \<times> {0..h - 1}" "(x', y') \<noteq> (x, y)" using that by auto
      moreover have "untouched_cell w s t x' y'" using un that by auto
      ultimately show ?thesis
        using keep [of "nat (y' * w + x')"] other [of x' y']
        by (simp add: untouched_cell_def Let_def)
    qed
    have c4: "\<forall>(x', y')\<in>insert (x, y) D. collided_cell w h s ?t' x' y'"
      using 3 4 by blast
    have c5: "\<forall>(x', y')\<in>{0..w - 1} \<times> {0..h - 1} - insert (x, y) D.
                 untouched_cell w s ?t' x' y'"
      using 5 by blast
    show ?thesis using 1 2 c4 c5 by blast
  qed
qed

lemma collision_result:
  assumes shape: "length (rho s) = n" "length (ux s) = n" "length (uy s) = n"
      "length (fNew s) = N_DISCRETE_VELOCITIES"
      "\<forall>i<N_DISCRETE_VELOCITIES. length (fNew s ! i) = n"
    and n: "n = nat (w * h)"
  shows "same_params s (collision w h s) \<and> same_shape s (collision w h s) \<and>
         (\<forall>(x, y)\<in>{0..w - 1} \<times> {0..h - 1}. collided_cell w h s (collision w h s) x y)"
proof -
  let ?R = "{0..w - 1} \<times> {0..h - 1}"
  let ?P = "\<lambda>D t. D \<subseteq> ?R \<and> same_params s t \<and> same_shape s t \<and>
                   (\<forall>(x, y)\<in>D. collided_cell w h s t x y) \<and>
                   (\<forall>(x, y)\<in>?R - D. untouched_cell w s t x y)"
  have "?P ?R (for_cells w h (collide_cell w h) s)"
  proof (rule for_cells_rule [where P = ?P])
    show "?P {} s" by (simp add: same_params_def same_shape_def untouched_cell_def)
  next
    fix D t x y
    assume P: "?P D t" and x: "0 \<le> x" "x < w" and y: "0 \<le> y" "y < h" and new: "(x, y) \<notin> D"
    have "insert (x, y) D \<subseteq> ?R" using P x y by auto
    moreover note collide_cell_step [OF shape n _ _ _ _ _ x y new, of t]
    ultimately show "?P (insert (x, y) D) (collide_cell w h t y x)" using P by blast
  qed
  then show ?thesis by (simp add: collision_def)
qed

subsection \<open>The whole step\<close>

lemma step_result:
  assumes wf: "wf s"
  shows "same_params s (streaming u (width s) (height s) s)"
    and "width (step u s) = width s \<and> height (step u s) = height s \<and>
         viscosity (step u s) = viscosity s \<and> omega (step u s) = omega s \<and>
         barrier (step u s) = barrier s \<and> fNew (step u s) = f s"
    and "wf (step u s)"
    and "\<forall>(x, y)\<in>{0..width s - 1} \<times> {0..height s - 1}.
           (let idx = nat (y * width s + x); s1 = streaming u (width s) (height s) s
            in if mask_at (barrier s) idx
               then rho (step u s) ! idx = 1 \<and> ux (step u s) ! idx = 0 \<and> uy (step u s) ! idx = 0
               else (case macroscopic s1 idx of (rho0, ux0, uy0) \<Rightarrow>
                       rho (step u s) ! idx = rho0 \<and> ux (step u s) ! idx = ux0 \<and>
                       uy (step u s) ! idx = uy0 \<and>
                       (\<forall>i<N_DISCRETE_VELOCITIES.
                           f (step u s) ! i ! idx = bgk idx rho0 ux0 uy0 s1 i)))"
proof -
  define w h n where "w = width s" and "h = height s" and "n = nat (width s * height s)"
  define s1 where "s1 = streaming u w h s"
  define s2 where "s2 = collision w h s1"
  have st: "step u s = s2\<lparr>f := fNew s2, fNew := f s2\<rparr>"
    by (simp add: step_def Let_def s2_def s1_def w_def h_def)
  from streaming_result [OF wf, of w h u]
  have p1: "same_params s s1" and sh1: "same_shape s s1"
    and c1: "\<forall>(x, y)\<in>{0..w - 1} \<times> {0..h - 1}. streamed_cell u w h s s1 x y"
    by (simp_all add: s1_def w_def h_def)
  have l1: "length (rho s1) = n" "length (ux s1) = n" "length (uy s1) = n"
    "length (fNew s1) = N_DISCRETE_VELOCITIES"
    "\<forall>i<N_DISCRETE_VELOCITIES. length (fNew s1 ! i) = n"
    using sh1 wf_lengths [OF wf] by (simp_all add: same_shape_def n_def)
  have nn: "n = nat (w * h)" by (simp add: n_def w_def h_def)
  from collision_result [OF l1 nn]
  have p2: "same_params s1 s2" and sh2: "same_shape s1 s2"
    and c2: "\<forall>(x, y)\<in>{0..w - 1} \<times> {0..h - 1}. collided_cell w h s1 s2 x y"
    by (simp_all add: s2_def)
  show "same_params s (streaming u (width s) (height s) s)"
    using p1 by (simp add: s1_def w_def h_def)
  show "width (step u s) = width s \<and> height (step u s) = height s \<and>
         viscosity (step u s) = viscosity s \<and> omega (step u s) = omega s \<and>
         barrier (step u s) = barrier s \<and> fNew (step u s) = f s"
    using p1 p2 by (simp add: st same_params_def)
  show "wf (step u s)"
    using p1 p2 sh2 l1 wf_lengths [OF wf]
    by (simp add: st same_params_def same_shape_def wf_def Let_def list_all_length n_def)
  show "\<forall>(x, y)\<in>{0..width s - 1} \<times> {0..height s - 1}.
           (let idx = nat (y * width s + x); s1 = streaming u (width s) (height s) s
            in if mask_at (barrier s) idx
               then rho (step u s) ! idx = 1 \<and> ux (step u s) ! idx = 0 \<and> uy (step u s) ! idx = 0
               else (case macroscopic s1 idx of (rho0, ux0, uy0) \<Rightarrow>
                       rho (step u s) ! idx = rho0 \<and> ux (step u s) ! idx = ux0 \<and>
                       uy (step u s) ! idx = uy0 \<and>
                       (\<forall>i<N_DISCRETE_VELOCITIES.
                           f (step u s) ! i ! idx = bgk idx rho0 ux0 uy0 s1 i)))"
  proof (intro ballI, clarify)
    fix x y assume xy: "x \<in> {0..width s - 1}" "y \<in> {0..height s - 1}"
    then have r: "(x, y) \<in> {0..w - 1} \<times> {0..h - 1}" by (simp add: w_def h_def)
    have a: "streamed_cell u w h s s1 x y" using c1 r by blast
    have b: "collided_cell w h s1 s2 x y" using c2 r by blast
    have bs: "barrier s1 = barrier s" using p1 by (simp add: same_params_def)
    show "let idx = nat (y * width s + x); s1 = streaming u (width s) (height s) s
            in if mask_at (barrier s) idx
               then rho (step u s) ! idx = 1 \<and> ux (step u s) ! idx = 0 \<and> uy (step u s) ! idx = 0
               else (case macroscopic s1 idx of (rho0, ux0, uy0) \<Rightarrow>
                       rho (step u s) ! idx = rho0 \<and> ux (step u s) ! idx = ux0 \<and>
                       uy (step u s) ! idx = uy0 \<and>
                       (\<forall>i<N_DISCRETE_VELOCITIES.
                           f (step u s) ! i ! idx = bgk idx rho0 ux0 uy0 s1 i))"
      using a b bs
      by (cases "mask_at (barrier s) (nat (y * w + x))")
         (simp_all add: st streamed_cell_def collided_cell_def Let_def
            s1_def [symmetric] w_def [symmetric] h_def [symmetric])
  qed
qed

lemma step_cell:
  assumes "wf s" "0 \<le> x" "x < width s" "0 \<le> y" "y < height s"
  shows "if mask_at (barrier s) (nat (y * width s + x))
         then rho (step u s) ! nat (y * width s + x) = 1 \<and>
              ux (step u s) ! nat (y * width s + x) = 0 \<and>
              uy (step u s) ! nat (y * width s + x) = 0
         else (case macroscopic (streaming u (width s) (height s) s) (nat (y * width s + x)) of
                 (rho0, ux0, uy0) \<Rightarrow>
                   rho (step u s) ! nat (y * width s + x) = rho0 \<and>
                   ux (step u s) ! nat (y * width s + x) = ux0 \<and>
                   uy (step u s) ! nat (y * width s + x) = uy0 \<and>
                   (\<forall>i<N_DISCRETE_VELOCITIES.
                       f (step u s) ! i ! nat (y * width s + x)
                         = bgk (nat (y * width s + x)) rho0 ux0 uy0
                             (streaming u (width s) (height s) s) i))"
proof -
  have "(x, y) \<in> {0..width s - 1} \<times> {0..height s - 1}" using assms by simp
  from bspec [OF step_result(4) [OF assms(1), of u] this] show ?thesis
    by (simp add: Let_def)
qed

subsection \<open>The direction tables and the moments\<close>

lemma nine_cases:
  assumes "i < N_DISCRETE_VELOCITIES"
  shows "i \<in> {0, 1, 2, 3, 4, 5, 6, 7, 8}"
proof -
  have "i \<in> set [0..<N_DISCRETE_VELOCITIES]" using assms by simp
  then show ?thesis unfolding upt_nine by simp
qed

lemma moments_sum:
  "moments s idx =
     (fNew s ! 0 ! idx + fNew s ! 1 ! idx + fNew s ! 2 ! idx + fNew s ! 3 ! idx
        + fNew s ! 4 ! idx + fNew s ! 5 ! idx + fNew s ! 6 ! idx + fNew s ! 7 ! idx
        + fNew s ! 8 ! idx,
      fNew s ! 1 ! idx - fNew s ! 3 ! idx + fNew s ! 5 ! idx - fNew s ! 6 ! idx
        - fNew s ! 7 ! idx + fNew s ! 8 ! idx,
      fNew s ! 2 ! idx - fNew s ! 4 ! idx + fNew s ! 5 ! idx + fNew s ! 6 ! idx
        - fNew s ! 7 ! idx - fNew s ! 8 ! idx)"
  unfolding moments_def upt_nine by (simp add: Let_def EX_vec_def EY_vec_def)

subsection \<open>The rest state\<close>

lemma at_restD:
  assumes "at_rest s" "0 \<le> x" "x < width s" "0 \<le> y" "y < height s"
    and "\<not> mask_at (barrier s) (nat (y * width s + x))"
  shows "rho s ! nat (y * width s + x) = 1" "ux s ! nat (y * width s + x) = 0"
    "uy s ! nat (y * width s + x) = 0"
    "i < N_DISCRETE_VELOCITIES \<Longrightarrow> f s ! i ! nat (y * width s + x) = W ! i"
proof -
  have "x \<in> {0..width s - 1}" "y \<in> {0..height s - 1}" using assms by simp_all
  with assms(1) have
    "let idx = nat (y * width s + x)
        in \<not> mask_at (barrier s) idx \<longrightarrow>
             rho s ! idx = 1 \<and> ux s ! idx = 0 \<and> uy s ! idx = 0 \<and>
             (\<forall>i<N_DISCRETE_VELOCITIES. f s ! i ! idx = W ! i)"
    unfolding at_rest_def by blast
  then have *: "rho s ! nat (y * width s + x) = 1 \<and> ux s ! nat (y * width s + x) = 0 \<and>
      uy s ! nat (y * width s + x) = 0 \<and>
      (\<forall>i<N_DISCRETE_VELOCITIES. f s ! i ! nat (y * width s + x) = W ! i)"
    using assms(6) by (simp add: Let_def)
  show "rho s ! nat (y * width s + x) = 1" "ux s ! nat (y * width s + x) = 0"
    "uy s ! nat (y * width s + x) = 0"
    "i < N_DISCRETE_VELOCITIES \<Longrightarrow> f s ! i ! nat (y * width s + x) = W ! i"
    using * by blast+
qed

lemma direction_table:
  assumes "i < N_DISCRETE_VELOCITIES"
  shows "- 1 \<le> EX_vec ! i" "EX_vec ! i \<le> 1" "- 1 \<le> EY_vec ! i" "EY_vec ! i \<le> 1"
    "W ! (OPPOSITE ! i) = W ! i" "computeEquilibrium i 1 0 0 = W ! i"
  using nine_cases [OF assms]
  by (auto simp add: EX_vec_def EY_vec_def OPPOSITE_def W_def computeEquilibrium_def)

lemma pull_rest:
  assumes "at_rest s" "0 \<le> x" "x < width s" "0 \<le> y" "y < height s"
    and fluid: "\<not> mask_at (barrier s) (nat (y * width s + x))"
    and i: "i < N_DISCRETE_VELOCITIES"
  shows "pull 0 (width s) (height s) s x y i = W ! i"
proof -
  let ?sx = "x - EX_vec ! i" and ?sy = "y - EY_vec ! i"
  note own = at_restD(4) [OF assms(1-6)]
  note tab = direction_table [OF i] opposite_table [OF i]
  show ?thesis
  proof (cases "0 \<le> ?sx \<and> ?sx < width s \<and> 0 \<le> ?sy \<and> ?sy < height s")
    case True
    show ?thesis
    proof (cases "mask_at (barrier s) (nat (?sy * width s + ?sx))")
      case solid: True
      have "f s ! (OPPOSITE ! i) ! nat (y * width s + x) = W ! (OPPOSITE ! i)"
        using tab by (intro own) simp
      then show ?thesis using True solid tab(5) by (simp add: pull_def Let_def)
    next
      case False
      have "f s ! i ! nat (?sy * width s + ?sx) = W ! i"
        using True False i by (intro at_restD(4) [OF assms(1)]) simp_all
      then show ?thesis using True False by (simp add: pull_def Let_def)
    qed
  next
    case False
    show ?thesis
    proof (cases "?sx < 0")
      case True
      then show ?thesis using tab(6) by (simp add: pull_def Let_def)
    next
      case nl: False
      show ?thesis
      proof (cases "width s \<le> ?sx")
        case True
        then have "x = width s - 1" using tab(1) assms(3) by simp
        then have "f s ! i ! nat (y * width s + (width s - 1)) = W ! i"
          using own [OF i] by simp
        then show ?thesis using True nl assms(2,3) by (simp add: pull_def Let_def)
      next
        case nr: False
        then show ?thesis using False nl tab(6) by (auto simp add: pull_def Let_def)
      qed
    qed
  qed
qed

lemma clamp_velocity_zero: "clamp_velocity (0, 0) = (0, 0)"
  by (simp add: clamp_velocity_def maxU_def)

lemma weights_total:
  "W ! 0 + W ! 1 + W ! 2 + W ! 3 + W ! 4 + W ! 5 + W ! 6 + W ! 7 + W ! 8 = 1"
  "W ! 1 - W ! 3 + W ! 5 - W ! 6 - W ! 7 + W ! 8 = 0"
  "W ! 2 - W ! 4 + W ! 5 + W ! 6 - W ! 7 - W ! 8 = 0"
  by (simp_all add: W_def)

lemma at_rest_step:
  assumes wf: "wf s" and rest: "at_rest s"
  shows "at_rest (step 0 s)"
proof -
  let ?s1 = "streaming 0 (width s) (height s) s"
  note keep = step_result(2) [OF wf, of 0]
  have cell: "rho (step 0 s) ! nat (y * width s + x) = 1 \<and>
              ux (step 0 s) ! nat (y * width s + x) = 0 \<and>
              uy (step 0 s) ! nat (y * width s + x) = 0 \<and>
              (\<forall>i<N_DISCRETE_VELOCITIES. f (step 0 s) ! i ! nat (y * width s + x) = W ! i)"
    if r: "0 \<le> x" "x < width s" "0 \<le> y" "y < height s"
      and fluid: "\<not> mask_at (barrier s) (nat (y * width s + x))" for x y
  proof -
    let ?idx = "nat (y * width s + x)"
    have st: "fNew ?s1 ! i ! ?idx = W ! i" if "i < N_DISCRETE_VELOCITIES" for i
      using streaming_fluid [OF wf r fluid that, of 0] pull_rest [OF rest r fluid that] by simp
    have "moments ?s1 ?idx = (1, 0, 0)"
      unfolding moments_sum using weights_total
      by (simp add: st N_DISCRETE_VELOCITIES_def)
    then have m: "macroscopic ?s1 ?idx = (1, 0, 0)"
      by (simp add: macroscopic_def normalize_velocity_def clamp_velocity_zero)
    have "bgk ?idx 1 0 0 ?s1 i = W ! i" if "i < N_DISCRETE_VELOCITIES" for i
      using st [OF that] direction_table(6) [OF that]
      by (simp add: bgk_def Let_def algebra_simps)
    then show ?thesis using step_cell [OF wf r, of 0] fluid m by simp
  qed
  show ?thesis
    unfolding at_rest_def using keep cell by (simp add: Let_def)
qed

lemma wf_constructor:
  assumes "LBMSolver_constructor w h v = Inr s"
  shows "wf s" "width s = w" "height s = h" "at_rest s"
    "\<forall>i<length (barrier s). \<not> barrier s ! i"
proof -
  have nn: "\<not> (w * h < 0 \<or> w * h > 2 ^ 32 - 1)"
    using assms by (auto simp add: LBMSolver_constructor_def Let_def)
  have s: "s = \<lparr> width = w, height = h, viscosity = v, omega = 1 / (3 * v + 0.5),
                 rho = replicate (nat (w * h)) 1, ux = replicate (nat (w * h)) 0,
                 uy = replicate (nat (w * h)) 0,
                 f = map (\<lambda>i. replicate (nat (w * h)) (W ! i)) [0..<N_DISCRETE_VELOCITIES],
                 fNew = map (\<lambda>i. replicate (nat (w * h)) 0) [0..<N_DISCRETE_VELOCITIES],
                 barrier = replicate (nat (w * h)) False \<rparr>"
    using assms nn by (simp add: LBMSolver_constructor_def Let_def)
  show "wf s" by (simp add: s wf_def list_all_iff)
  show "width s = w" "height s = h" by (simp_all add: s)
  show "\<forall>i<length (barrier s). \<not> barrier s ! i" by (simp add: s)
  show "at_rest s"
    unfolding at_rest_def
  proof (intro ballI)
    fix x y assume "x \<in> {0..width s - 1}" "y \<in> {0..height s - 1}"
    then have "nat (y * w + x) < nat (w * h)" by (intro cell_idx_bound) (simp_all add: s)
    then show "let idx = nat (y * width s + x)
        in \<not> mask_at (barrier s) idx \<longrightarrow>
             rho s ! idx = 1 \<and> ux s ! idx = 0 \<and> uy s ! idx = 0 \<and>
             (\<forall>i<N_DISCRETE_VELOCITIES. f s ! i ! idx = W ! i)"
      by (simp add: s)
  qed
qed

lemma setObstacles_keeps:
  "wf s \<Longrightarrow> wf (setObstacles m s)"
  "width (setObstacles m s) = width s" "height (setObstacles m s) = height s"
  "rho (setObstacles m s) = rho s" "ux (setObstacles m s) = ux s" "uy (setObstacles m s) = uy s"
  "f (setObstacles m s) = f s"
  by (auto simp add: setObstacles_def wf_def Let_def)

lemma setViscosity_keeps: "wf s \<Longrightarrow> wf (setViscosity v s)"
  by (simp add: setViscosity_def wf_def Let_def)

lemma at_rest_setObstacles:
  assumes "wf s" "at_rest s" "\<forall>i<length (barrier s). \<not> barrier s ! i"
  shows "at_rest (setObstacles m s)"
proof (cases "int (length m) \<noteq> width s * height s")
  case True
  then show ?thesis using assms(2) by (simp add: setObstacles_def)
next
  case False
  have "rho s ! nat (y * width s + x) = 1 \<and> ux s ! nat (y * width s + x) = 0 \<and>
        uy s ! nat (y * width s + x) = 0 \<and>
        (\<forall>i<N_DISCRETE_VELOCITIES. f s ! i ! nat (y * width s + x) = W ! i)"
    if "0 \<le> x" "x < width s" "0 \<le> y" "y < height s" for x y
  proof -
    have "\<not> mask_at (barrier s) (nat (y * width s + x))"
      using assms(3) by (simp add: mask_at_def)
    from at_restD [OF assms(2) that this] show ?thesis by blast
  qed
  then show ?thesis unfolding at_rest_def by (simp add: setObstacles_keeps Let_def)
qed

lemma rest_run:
  assumes "wf s" "at_rest s"
  shows "wf ((step 0 ^^ n) s) \<and> at_rest ((step 0 ^^ n) s) \<and>
         width ((step 0 ^^ n) s) = width s \<and> height ((step 0 ^^ n) s) = height s \<and>
         barrier ((step 0 ^^ n) s) = barrier s"
proof (induction n)
  case 0
  then show ?case using assms by simp
next
  case (Suc n)
  then show ?case
    using step_result(2,3) [of "(step 0 ^^ n) s" 0] at_rest_step [of "(step 0 ^^ n) s"]
    by simp
qed

subsection \<open>The streamline loop\<close>










section \<open>Properties\<close>

text \<open>
  C7. A mask whose length differs from \<open>width * height\<close> is ignored by
  \<open>setObstacles\<close>: the whole solver state, the stored mask included, is returned
  unchanged, and the operation has no failing branch.
\<close>

theorem setObstacles_wrong_length_noop:
  "int (length m) \<noteq> width s * height s \<Longrightarrow>
     setObstacles m s = s \<and> barrier (setObstacles m s) = barrier s"
  by (simp add: setObstacles_def)

theorem setObstacles_wrong_length_noop_witness:
  "int (length [True]) \<noteq> width (projr (LBMSolver_constructor 2 2 (1 / 25)))
                          * height (projr (LBMSolver_constructor 2 2 (1 / 25))) \<and>
   setObstacles [True] (projr (LBMSolver_constructor 2 2 (1 / 25)))
     = projr (LBMSolver_constructor 2 2 (1 / 25)) \<and>
   barrier (setObstacles [True] (projr (LBMSolver_constructor 2 2 (1 / 25))))
     = barrier (projr (LBMSolver_constructor 2 2 (1 / 25)))"
proof -
  have h: "int (length [True]) \<noteq> width (projr (LBMSolver_constructor 2 2 (1 / 25)))
                          * height (projr (LBMSolver_constructor 2 2 (1 / 25)))"
    by (simp add: LBMSolver_constructor_def)
  from setObstacles_wrong_length_noop [OF h] h show ?thesis by simp
qed

text \<open>
  C8, as stated: construction fails for every non-positive width or height. The
  constructor has no check of its arguments; with width 0 and height 5 the product is 0,
  every allocation succeeds and a solver with empty arrays is returned. With width and
  height both \<open>-1\<close> the product is 1 and a solver is returned as well.
\<close>

theorem constructor_nonpositive_counterexample:
  "(0::int) \<le> 0 \<and>
   LBMSolver_constructor 0 5 (1 / 25) =
     Inr \<lparr> width = 0, height = 5, viscosity = 1 / 25, omega = 1 / (3 * (1 / 25) + 0.5),
           rho = [], ux = [], uy = [],
           f = [[], [], [], [], [], [], [], [], []],
           fNew = [[], [], [], [], [], [], [], [], []],
           barrier = [] \<rparr> \<and>
   \<not> isl (LBMSolver_constructor (- 1) (- 1) (1 / 25))"
  by (simp add: LBMSolver_constructor_def N_DISCRETE_VELOCITIES_def upt_rec)

text \<open>
  C8, amended: the constructor does not reject a non-positive width or height as such.
  It fails, with the RangeError of the first array allocation, whenever
  \<open>width * height\<close> is negative, that is when one dimension is negative and the other
  positive. A width or height of 0 is accepted: a solver with the given dimensions and
  empty arrays is returned. Two negative dimensions are not rejected either: only the
  product decides, so the outcome is that of the grid with both dimensions negated.
\<close>

theorem constructor_rejects_only_by_product:
  "(w * h < 0 \<longrightarrow> LBMSolver_constructor w h v = Inl RangeError) \<and>
   (w * h = 0 \<longrightarrow>
      \<not> isl (LBMSolver_constructor w h v) \<and>
      width (projr (LBMSolver_constructor w h v)) = w \<and>
      height (projr (LBMSolver_constructor w h v)) = h \<and>
      rho (projr (LBMSolver_constructor w h v)) = [] \<and>
      ux (projr (LBMSolver_constructor w h v)) = [] \<and>
      uy (projr (LBMSolver_constructor w h v)) = [] \<and>
      barrier (projr (LBMSolver_constructor w h v)) = []) \<and>
   isl (LBMSolver_constructor (- w) (- h) v) = isl (LBMSolver_constructor w h v)"
  by (simp add: LBMSolver_constructor_def Let_def)

theorem constructor_rejects_only_by_product_witness:
  "(- 2 :: int) * 3 < 0 \<and> LBMSolver_constructor (- 2) 3 (1 / 25) = Inl RangeError \<and>
   (4 :: int) * 0 = 0 \<and> \<not> isl (LBMSolver_constructor 4 0 (1 / 25)) \<and>
   width (projr (LBMSolver_constructor 4 0 (1 / 25))) = 4 \<and>
   rho (projr (LBMSolver_constructor 4 0 (1 / 25))) = [] \<and>
   isl (LBMSolver_constructor (- 7) (- 5) (1 / 25)) = isl (LBMSolver_constructor 7 5 (1 / 25))"
  using constructor_rejects_only_by_product [of "- 2" 3 "1 / 25"]
        constructor_rejects_only_by_product [of 4 0 "1 / 25"]
        constructor_rejects_only_by_product [of 7 5 "1 / 25"]
  by simp

text \<open>
  C10. \<open>setViscosity v\<close> stores \<open>v\<close> and the relaxation coefficient computed from it, and
  leaves every other field as it was: both population buffers, the macroscopic arrays,
  the obstacle mask and the grid dimensions. The coefficient is \<open>1 / (3 v + 0.5)\<close>
  wherever that quotient is a number (at \<open>v = - 1 / 6\<close> the source divides by zero).
\<close>

theorem setViscosity_frame:
  "viscosity (setViscosity v s) = v \<and>
   (3 * v + 0.5 \<noteq> 0 \<longrightarrow> omega (setViscosity v s) = 1 / (3 * v + 0.5)) \<and>
   f (setViscosity v s) = f s \<and> fNew (setViscosity v s) = fNew s \<and>
   rho (setViscosity v s) = rho s \<and> ux (setViscosity v s) = ux s \<and>
   uy (setViscosity v s) = uy s \<and> barrier (setViscosity v s) = barrier s \<and>
   width (setViscosity v s) = width s \<and> height (setViscosity v s) = height s \<and>
   setViscosity v s = s\<lparr>viscosity := viscosity (setViscosity v s),
                         omega := omega (setViscosity v s)\<rparr>"
  by (simp add: setViscosity_def)

theorem setViscosity_frame_witness:
  "3 * (1 / 10 :: real) + 0.5 \<noteq> 0 \<and>
   omega (setViscosity (1 / 10) (projr (LBMSolver_constructor 2 2 (1 / 25)))) = 5 / 4 \<and>
   f (setViscosity (1 / 10) (projr (LBMSolver_constructor 2 2 (1 / 25))))
     = f (projr (LBMSolver_constructor 2 2 (1 / 25)))"
  using setViscosity_frame [of "1 / 10" "projr (LBMSolver_constructor 2 2 (1 / 25))"]
  by simp

text \<open>
  C3. In the streaming pass of a step, at a fluid cell \<open>(x, y)\<close> and a direction \<open>i\<close> whose
  source cell \<open>(x - e\<^sub>i.x, y - e\<^sub>i.y)\<close> is inside the grid and solid, the new population of
  direction \<open>i\<close> is the cell's own current population of the direction \<open>OPPOSITE[i]\<close>.
  The table is \<open>[0,3,4,1,2,7,8,5,6]\<close>; it maps every direction to the one with the
  negated lattice vector and is its own inverse.
\<close>

theorem bounce_back_from_solid_source:
  assumes "wf s" and "0 \<le> x" and "x < width s" and "0 \<le> y" and "y < height s"
    and "\<not> mask_at (barrier s) (nat (y * width s + x))"
    and "i < N_DISCRETE_VELOCITIES"
    and "0 \<le> x - EX_vec ! i" and "x - EX_vec ! i < width s"
    and "0 \<le> y - EY_vec ! i" and "y - EY_vec ! i < height s"
    and "mask_at (barrier s) (nat ((y - EY_vec ! i) * width s + (x - EX_vec ! i)))"
  shows "fNew (streaming u (width s) (height s) s) ! i ! nat (y * width s + x)
           = f s ! (OPPOSITE ! i) ! nat (y * width s + x) \<and>
         OPPOSITE = [0, 3, 4, 1, 2, 7, 8, 5, 6] \<and>
         EX_vec ! (OPPOSITE ! i) = - EX_vec ! i \<and> EY_vec ! (OPPOSITE ! i) = - EY_vec ! i \<and>
         OPPOSITE ! (OPPOSITE ! i) = i"
proof -
  have "pull u (width s) (height s) s x y i = f s ! (OPPOSITE ! i) ! nat (y * width s + x)"
    using assms(8-12) by (simp add: pull_def Let_def)
  then show ?thesis
    using streaming_fluid [OF assms(1-7), of u] opposite_table [OF assms(7)]
    by (simp add: OPPOSITE_def)
qed

theorem bounce_back_from_solid_source_witness:
  "wf example_solver \<and> \<not> mask_at (barrier example_solver) (nat (1 * width example_solver + 0)) \<and>
   mask_at (barrier example_solver)
     (nat ((1 - EY_vec ! 3) * width example_solver + (0 - EX_vec ! 3))) \<and>
   fNew (streaming (1 / 10) (width example_solver) (height example_solver) example_solver) ! 3
     ! nat (1 * width example_solver + 0) = 13"
proof -
  have h: "(0::int) \<le> 0" "0 < width example_solver" "(0::int) \<le> 1" "1 < height example_solver"
    "\<not> mask_at (barrier example_solver) (nat (1 * width example_solver + 0))"
    "3 < N_DISCRETE_VELOCITIES"
    "0 \<le> 0 - EX_vec ! 3" "0 - EX_vec ! 3 < width example_solver"
    "0 \<le> 1 - EY_vec ! 3" "1 - EY_vec ! 3 < height example_solver"
    "mask_at (barrier example_solver)
       (nat ((1 - EY_vec ! 3) * width example_solver + (0 - EX_vec ! 3)))"
    by (simp_all add: example_solver_def mask_at_def EX_vec_def EY_vec_def
          N_DISCRETE_VELOCITIES_def)
  have v: "f example_solver ! (OPPOSITE ! 3) ! nat (1 * width example_solver + 0) = 13"
    by (simp add: example_solver_def OPPOSITE_def)
  from bounce_back_from_solid_source [OF wf_example h, of "1 / 10"] v h(5,11) wf_example
  show ?thesis by simp
qed

text \<open>
  C4, as stated: every source outside the top or bottom edge gives the equilibrium
  population. In the first step, with inlet speed 0.1, of a freshly constructed 3 x 3
  solver, take the top right corner cell \<open>(2, 0)\<close> and the direction 6, whose vector is
  \<open>(-1, 1)\<close>: the source \<open>(3, -1)\<close> is above the top edge and also beyond the right
  edge. The test for the right edge comes first in the source, so the population is
  copied from the current buffer (1/36) and is not the equilibrium value 73/3600.
\<close>

theorem top_right_corner_counterexample:
  "\<not> mask_at (barrier (projr (LBMSolver_constructor 3 3 (1 / 25)))) (nat (0 * 3 + 2)) \<and>
   0 - EY_vec ! 6 < 0 \<and>
   fNew (streaming (1 / 10) 3 3 (projr (LBMSolver_constructor 3 3 (1 / 25)))) ! 6
     ! nat (0 * 3 + 2) = 1 / 36 \<and>
   computeEquilibrium 6 1 (1 / 10) 0 = 73 / 3600 \<and>
   fNew (streaming (1 / 10) 3 3 (projr (LBMSolver_constructor 3 3 (1 / 25)))) ! 6
     ! nat (0 * 3 + 2) \<noteq> computeEquilibrium 6 1 (1 / 10) 0"
proof -
  let ?s = "projr (LBMSolver_constructor 3 3 (1 / 25))"
  have c: "LBMSolver_constructor 3 3 (1 / 25) = Inr ?s"
    by (simp add: LBMSolver_constructor_def)
  note k = wf_constructor [OF c]
  have h: "(0::int) \<le> 2" "2 < width ?s" "(0::int) \<le> 0" "0 < height ?s"
    "\<not> mask_at (barrier ?s) (nat (0 * width ?s + 2))"
    "6 < N_DISCRETE_VELOCITIES"
    by (simp_all add: k(2,3) mask_at_def N_DISCRETE_VELOCITIES_def LBMSolver_constructor_def)
  have p: "pull (1 / 10) (width ?s) (height ?s) ?s 2 0 6 = 1 / 36"
    by (simp add: pull_def LBMSolver_constructor_def EX_vec_def EY_vec_def mask_at_def W_def
          N_DISCRETE_VELOCITIES_def)
  have e: "computeEquilibrium 6 1 (1 / 10) 0 = 73 / 3600"
    by (simp add: computeEquilibrium_def EX_vec_def EY_vec_def W_def)
  have y: "0 - EY_vec ! 6 < 0" by (simp add: EY_vec_def)
  from streaming_fluid [OF k(1) h, of "1 / 10"] p e y h(5)
  show ?thesis by (simp add: k(2,3))
qed

text \<open>
  C4, amended: in the streaming pass, at a fluid cell and a direction whose source is
  left of the grid, or is above or below the grid in a column that is not beyond the
  right edge, the new population is the equilibrium
  \<open>W[i] * rho * (1 + 3 (e\<^sub>i . u) + 4.5 (e\<^sub>i . u)\<^sup>2 - 1.5 |u|\<^sup>2)\<close> at \<open>rho = 1\<close> and
  \<open>u = (inletSpeed, 0)\<close>, with the weights 4/9, 1/9 (four times) and 1/36 (four times).
\<close>

theorem inlet_and_wall_equilibrium:
  assumes "wf s" and "0 \<le> x" and "x < width s" and "0 \<le> y" and "y < height s"
    and "\<not> mask_at (barrier s) (nat (y * width s + x))"
    and "i < N_DISCRETE_VELOCITIES"
    and "x - EX_vec ! i < 0 \<or>
         (x - EX_vec ! i < width s \<and> (y - EY_vec ! i < 0 \<or> height s \<le> y - EY_vec ! i))"
  shows "fNew (streaming inletSpeed (width s) (height s) s) ! i ! nat (y * width s + x)
           = computeEquilibrium i 1 inletSpeed 0 \<and>
         computeEquilibrium i r a b
           = W ! i * r * (1 + 3 * (real_of_int (EX_vec ! i) * a + real_of_int (EY_vec ! i) * b)
                          + 4.5 * (real_of_int (EX_vec ! i) * a + real_of_int (EY_vec ! i) * b)\<^sup>2
                          - 1.5 * (a\<^sup>2 + b\<^sup>2)) \<and>
         computeEquilibrium i 1 inletSpeed 0
           = W ! i * (1 + 3 * (real_of_int (EX_vec ! i) * inletSpeed)
                        + 4.5 * (real_of_int (EX_vec ! i) * inletSpeed)\<^sup>2
                        - 1.5 * inletSpeed\<^sup>2) \<and>
         W = [4 / 9, 1 / 9, 1 / 9, 1 / 9, 1 / 9, 1 / 36, 1 / 36, 1 / 36, 1 / 36]"
proof -
  have "pull inletSpeed (width s) (height s) s x y i = computeEquilibrium i 1 inletSpeed 0"
    using assms(8) by (auto simp add: pull_def Let_def)
  then show ?thesis
    using streaming_fluid [OF assms(1-7), of inletSpeed]
    by (simp add: computeEquilibrium_def Let_def W_def power2_eq_square algebra_simps)
qed

theorem inlet_and_wall_equilibrium_witness:
  "wf example_solver \<and>
   \<not> mask_at (barrier example_solver) (nat (1 * width example_solver + 0)) \<and>
   0 - EX_vec ! 1 < 0 \<and>
   fNew (streaming (1 / 10) (width example_solver) (height example_solver) example_solver) ! 1
     ! nat (1 * width example_solver + 0) = 133 / 900"
proof -
  have h: "(0::int) \<le> 0" "0 < width example_solver" "(0::int) \<le> 1" "1 < height example_solver"
    "\<not> mask_at (barrier example_solver) (nat (1 * width example_solver + 0))"
    "1 < N_DISCRETE_VELOCITIES"
    "0 - EX_vec ! 1 < 0 \<or>
       (0 - EX_vec ! 1 < width example_solver \<and>
        (1 - EY_vec ! 1 < 0 \<or> height example_solver \<le> 1 - EY_vec ! 1))"
    by (simp_all add: example_solver_def mask_at_def EX_vec_def EY_vec_def
          N_DISCRETE_VELOCITIES_def)
  have e: "computeEquilibrium 1 1 (1 / 10) 0 = 133 / 900"
    by (simp add: computeEquilibrium_def EX_vec_def EY_vec_def W_def)
  have x: "0 - EX_vec ! 1 < 0" by (simp add: EX_vec_def)
  from inlet_and_wall_equilibrium [OF wf_example h, of "1 / 10"] e x h(5) wf_example
  show ?thesis by simp
qed

text \<open>
  C5. In the streaming pass, at a fluid cell and a direction whose source is beyond the
  right edge, the new population is the current population of the same direction at
  \<open>(width - 1, y)\<close>; such a cell is in the column \<open>width - 1\<close> itself.
\<close>

theorem outlet_copies_own_column:
  assumes "wf s" and "0 \<le> x" and "x < width s" and "0 \<le> y" and "y < height s"
    and "\<not> mask_at (barrier s) (nat (y * width s + x))"
    and "i < N_DISCRETE_VELOCITIES"
    and "width s \<le> x - EX_vec ! i"
  shows "fNew (streaming inletSpeed (width s) (height s) s) ! i ! nat (y * width s + x)
           = f s ! i ! nat (y * width s + (width s - 1)) \<and>
         x = width s - 1"
proof -
  have "pull inletSpeed (width s) (height s) s x y i = f s ! i ! nat (y * width s + (width s - 1))"
    using assms(2,3,8) by (simp add: pull_def Let_def)
  moreover have "x = width s - 1"
  proof -
    have "- 1 \<le> EX_vec ! i"
    proof -
      have "i \<in> set [0..<N_DISCRETE_VELOCITIES]" using assms(7) by simp
      then have "i \<in> {0, 1, 2, 3, 4, 5, 6, 7, 8}" unfolding upt_nine by simp
      then show ?thesis by (auto simp add: EX_vec_def)
    qed
    then show ?thesis using assms(3,8) by simp
  qed
  ultimately show ?thesis using streaming_fluid [OF assms(1-7), of inletSpeed] by simp
qed

theorem outlet_copies_own_column_witness:
  "wf example_solver \<and>
   \<not> mask_at (barrier example_solver) (nat (1 * width example_solver + 2)) \<and>
   width example_solver \<le> 2 - EX_vec ! 3 \<and>
   fNew (streaming (1 / 10) (width example_solver) (height example_solver) example_solver) ! 3
     ! nat (1 * width example_solver + 2) = 35"
proof -
  have h: "(0::int) \<le> 2" "2 < width example_solver" "(0::int) \<le> 1" "1 < height example_solver"
    "\<not> mask_at (barrier example_solver) (nat (1 * width example_solver + 2))"
    "3 < N_DISCRETE_VELOCITIES"
    "width example_solver \<le> 2 - EX_vec ! 3"
    by (simp_all add: example_solver_def mask_at_def EX_vec_def N_DISCRETE_VELOCITIES_def)
  have v: "f example_solver ! 3 ! nat (1 * width example_solver + (width example_solver - 1)) = 35"
    by (simp add: example_solver_def)
  have d: "width example_solver = 3" by (simp add: example_solver_def)
  from outlet_copies_own_column [OF wf_example h, of "1 / 10"] v h(5,7) wf_example
  show ?thesis by (simp add: d)
qed

text \<open>
  C6. After a step, every cell of the grid that the mask marks solid holds velocity
  \<open>(0, 0)\<close> and density 1 in \<open>ux\<close>, \<open>uy\<close> and \<open>rho\<close>; the mask itself is not changed
  by the step.
\<close>

theorem solid_cells_report_rest:
  assumes "wf s" and "0 \<le> x" and "x < width s" and "0 \<le> y" and "y < height s"
    and "mask_at (barrier s) (nat (y * width s + x))"
  shows "ux (step inletSpeed s) ! nat (y * width s + x) = 0 \<and>
         uy (step inletSpeed s) ! nat (y * width s + x) = 0 \<and>
         rho (step inletSpeed s) ! nat (y * width s + x) = 1 \<and>
         barrier (step inletSpeed s) = barrier s"
  using step_cell [OF assms(1-5), of inletSpeed] step_result(2) [OF assms(1), of inletSpeed]
    assms(6)
  by simp

theorem solid_cells_report_rest_witness:
  "wf example_solver \<and> mask_at (barrier example_solver) (nat (1 * width example_solver + 1)) \<and>
   ux (step (1 / 10) example_solver) ! nat (1 * width example_solver + 1) = 0 \<and>
   uy (step (1 / 10) example_solver) ! nat (1 * width example_solver + 1) = 0 \<and>
   rho (step (1 / 10) example_solver) ! nat (1 * width example_solver + 1) = 1"
proof -
  have h: "(0::int) \<le> 1" "1 < width example_solver" "(0::int) \<le> 1" "1 < height example_solver"
    "mask_at (barrier example_solver) (nat (1 * width example_solver + 1))"
    by (simp_all add: example_solver_def mask_at_def)
  from solid_cells_report_rest [OF wf_example h, of "1 / 10"] h(5) wf_example
  show ?thesis by simp
qed

text \<open>
  C2. A solver as the constructor returns it, with any array passed to \<open>setObstacles\<close>
  (an array of the wrong length is ignored), is at rest, and stays so under any number
  of steps with inlet speed 0: every fluid cell of the grid has density 1 and velocity
  \<open>(0, 0)\<close>.
\<close>

theorem rest_state_is_fixed_point:
  assumes "LBMSolver_constructor w h v = Inr s0"
    and "0 \<le> x" and "x < w" and "0 \<le> y" and "y < h"
    and "\<not> mask_at (barrier (setObstacles m s0)) (nat (y * w + x))"
  shows "rho ((step 0 ^^ n) (setObstacles m s0)) ! nat (y * w + x) = 1 \<and>
         ux ((step 0 ^^ n) (setObstacles m s0)) ! nat (y * w + x) = 0 \<and>
         uy ((step 0 ^^ n) (setObstacles m s0)) ! nat (y * w + x) = 0"
proof -
  let ?s = "setObstacles m s0"
  let ?t = "(step 0 ^^ n) ?s"
  note c = wf_constructor [OF assms(1)]
  have wf: "wf ?s" using c(1) by (rule setObstacles_keeps(1))
  have rest: "at_rest ?s" using c(1,4,5) by (rule at_rest_setObstacles)
  have dim: "width ?s = w" "height ?s = h" using c(2,3) by (simp_all add: setObstacles_keeps)
  from rest_run [OF wf rest, of n]
  have r: "at_rest ?t" and d: "width ?t = w" "height ?t = h" and b: "barrier ?t = barrier ?s"
    using dim by simp_all
  have "\<not> mask_at (barrier ?t) (nat (y * width ?t + x))" using assms(6) b d by simp
  from at_restD(1-3) [OF r _ _ _ _ this] assms(2-5) d show ?thesis by simp
qed

theorem rest_state_is_fixed_point_witness:
  "LBMSolver_constructor 3 3 (1 / 25) = Inr (projr (LBMSolver_constructor 3 3 (1 / 25))) \<and>
   \<not> mask_at (barrier (setObstacles [False, False, False, False, True, False, False, False, False]
                        (projr (LBMSolver_constructor 3 3 (1 / 25))))) (nat (0 * 3 + 0)) \<and>
   rho ((step 0 ^^ 2) (setObstacles [False, False, False, False, True, False, False, False, False]
                        (projr (LBMSolver_constructor 3 3 (1 / 25))))) ! nat (0 * 3 + 0) = 1 \<and>
   ux ((step 0 ^^ 2) (setObstacles [False, False, False, False, True, False, False, False, False]
                        (projr (LBMSolver_constructor 3 3 (1 / 25))))) ! nat (0 * 3 + 0) = 0 \<and>
   uy ((step 0 ^^ 2) (setObstacles [False, False, False, False, True, False, False, False, False]
                        (projr (LBMSolver_constructor 3 3 (1 / 25))))) ! nat (0 * 3 + 0) = 0"
proof -
  have c: "LBMSolver_constructor 3 3 (1 / 25) = Inr (projr (LBMSolver_constructor 3 3 (1 / 25)))"
    by (simp add: LBMSolver_constructor_def)
  have h: "(0::int) \<le> 0" "(0::int) < 3" "(0::int) \<le> 0" "(0::int) < 3" by simp_all
  have fl: "\<not> mask_at (barrier (setObstacles [False, False, False, False, True, False, False, False, False]
                        (projr (LBMSolver_constructor 3 3 (1 / 25))))) (nat (0 * 3 + 0))"
    by (simp add: LBMSolver_constructor_def setObstacles_def mask_at_def)
  from rest_state_is_fixed_point [OF c h fl, of 2] c fl show ?thesis by blast
qed




end
